theory Spec2Isabelle
  imports Main "HOL-Library.Word"
begin

section \<open>Data model\<close>

text \<open>
  \<^verbatim>\<open>models.Secret\<close>. Go's \<^verbatim>\<open>int\<close> is taken at its 64-bit width, compared as a
  signed value; \<^verbatim>\<open>time.Time\<close> is an instant on one linear clock, counted in
  nanoseconds, and \<^verbatim>\<open>t.After(u)\<close> is the strict comparison.
\<close>

type_synonym time = int

record Secret =
  ID :: string
  EncryptedData :: "8 word list"
  MaxViews :: "64 word"
  CurrentViews :: "64 word"
  ExpiresAt :: time
  CreatedAt :: time
  Passphrase :: string

definition After :: "time \<Rightarrow> time \<Rightarrow> bool" where
  "After t u = (u < t)"

text \<open>
  The three sentinel errors of \<^verbatim>\<open>store.go\<close>, the transaction failure of the
  key-value client, a fault reported by the serialiser, the two run-time panics a
  map of pointers can raise, and the panic of a ticker that is given an interval
  that is not positive.
\<close>

datatype error =
    ErrNotFound
  | ErrExpired
  | ErrMaxViews
  | TxFailedErr
  | GobError
  | PanicNilMapAssign
  | PanicNilDeref
  | PanicTickerInterval

section \<open>The local backend\<close>

text \<open>
  \<^verbatim>\<open>MemoryStore.secrets\<close> is a \<^verbatim>\<open>map[string]*models.Secret\<close>: the table holds
  pointers. \<open>objects\<close> is the part of the heap those pointers lead to (an address
  that holds no object stands for the nil pointer); \<open>secrets = None\<close> is the nil map
  left behind by \<^verbatim>\<open>Close\<close>. \<open>cleanupCancel\<close> says whether the cancel function is
  set, \<open>ctxDone\<close> whether the sweeper's context has been cancelled.
\<close>

type_synonym addr = nat

record MemoryStore =
  objects :: "addr \<rightharpoonup> Secret"
  secrets :: "(string \<rightharpoonup> addr) option"
  cleanupCancel :: bool
  ctxDone :: bool

definition NewMemoryStore :: "(addr \<rightharpoonup> Secret) \<Rightarrow> MemoryStore" where
  "NewMemoryStore h =
     \<lparr>objects = h, secrets = Some Map.empty, cleanupCancel = True, ctxDone = False\<rparr>"

text \<open>Reading a nil map finds nothing; \<^verbatim>\<open>delete\<close> on a nil map does nothing.\<close>

definition map_index :: "MemoryStore \<Rightarrow> string \<Rightarrow> addr option" where
  "map_index s sid = (case secrets s of None \<Rightarrow> None | Some m \<Rightarrow> m sid)"

definition map_delete :: "MemoryStore \<Rightarrow> string \<Rightarrow> MemoryStore" where
  "map_delete s sid =
     (case secrets s of None \<Rightarrow> s | Some m \<Rightarrow> s\<lparr>secrets := Some (m(sid := None))\<rparr>)"

definition MemoryStore_Save :: "MemoryStore \<Rightarrow> addr \<Rightarrow> (error + unit) \<times> MemoryStore" where
  "MemoryStore_Save s secret =
     (case objects s secret of
        None \<Rightarrow> (Inl PanicNilDeref, s)
      | Some sec \<Rightarrow>
          (case secrets s of
             None \<Rightarrow> (Inl PanicNilMapAssign, s)
           | Some m \<Rightarrow> (Inr (), s\<lparr>secrets := Some (m(ID sec \<mapsto> secret))\<rparr>)))"

definition MemoryStore_Get :: "MemoryStore \<Rightarrow> time \<Rightarrow> string \<Rightarrow> (error + addr) \<times> MemoryStore" where
  "MemoryStore_Get s now sid =
     (case map_index s sid of
        None \<Rightarrow> (Inl ErrNotFound, s)
      | Some secret \<Rightarrow>
          (case objects s secret of
             None \<Rightarrow> (Inl PanicNilDeref, s)
           | Some sec \<Rightarrow>
               if After now (ExpiresAt sec) then (Inl ErrExpired, s)
               else if MaxViews sec <=s CurrentViews sec then (Inl ErrMaxViews, s)
               else (Inr secret, s)))"

definition MemoryStore_Delete :: "MemoryStore \<Rightarrow> string \<Rightarrow> (error + unit) \<times> MemoryStore" where
  "MemoryStore_Delete s sid = (Inr (), map_delete s sid)"

definition MemoryStore_IncrementViews ::
  "MemoryStore \<Rightarrow> time \<Rightarrow> string \<Rightarrow> (error + 64 word) \<times> MemoryStore" where
  "MemoryStore_IncrementViews s now sid =
     (case map_index s sid of
        None \<Rightarrow> (Inl ErrNotFound, s)
      | Some secret \<Rightarrow>
          (case objects s secret of
             None \<Rightarrow> (Inl PanicNilDeref, s)
           | Some sec \<Rightarrow>
               if After now (ExpiresAt sec) then (Inl ErrExpired, map_delete s sid)
               else if MaxViews sec <=s CurrentViews sec then (Inl ErrMaxViews, map_delete s sid)
               else
                 let sec' = sec\<lparr>CurrentViews := CurrentViews sec + 1\<rparr>;
                     s1 = s\<lparr>objects := (objects s)(secret \<mapsto> sec')\<rparr>;
                     s2 = (if MaxViews sec' <=s CurrentViews sec' then map_delete s1 sid else s1)
                 in (Inr (CurrentViews sec'), s2)))"

definition MemoryStore_Close :: "MemoryStore \<Rightarrow> (error + unit) \<times> MemoryStore" where
  "MemoryStore_Close s =
     (let s1 = (if cleanupCancel s then s\<lparr>ctxDone := True\<rparr> else s)
      in (Inr (), s1\<lparr>secrets := None\<rparr>))"

text \<open>
  \<^verbatim>\<open>cleanup\<close> ranges over the table. Go leaves the order of a map range open, so the
  order is an argument: \<open>ks\<close> lists the keys in the order the range produces them.
  An entry deleted before the range reaches it is not produced; the body deletes
  only the entry it is looking at.
\<close>

definition cleanup_body :: "time \<Rightarrow> string \<Rightarrow> MemoryStore \<Rightarrow> error + MemoryStore" where
  "cleanup_body now sid s =
     (case map_index s sid of
        None \<Rightarrow> Inr s
      | Some secret \<Rightarrow>
          (case objects s secret of
             None \<Rightarrow> Inl PanicNilDeref
           | Some sec \<Rightarrow>
               if After now (ExpiresAt sec) \<or> MaxViews sec <=s CurrentViews sec
               then Inr (map_delete s sid) else Inr s))"

fun cleanup_range :: "time \<Rightarrow> string list \<Rightarrow> MemoryStore \<Rightarrow> error + MemoryStore" where
  "cleanup_range now [] s = Inr s"
| "cleanup_range now (sid # ks) s =
     (case cleanup_body now sid s of
        Inl e \<Rightarrow> Inl e
      | Inr s' \<Rightarrow> cleanup_range now ks s')"

definition cleanup :: "MemoryStore \<Rightarrow> time \<Rightarrow> string list \<Rightarrow> error + MemoryStore" where
  "cleanup s now ks = cleanup_range now ks s"

text \<open>
  \<^verbatim>\<open>cleanupLoop\<close> starts a ticker and waits on two channels. Each element of the
  list is the case one \<^verbatim>\<open>select\<close> took: the context was done, or the ticker fired
  at the given instant (with the order of that sweep's map range).
\<close>

datatype select_case = CtxDone | TickerC time "string list"

fun cleanupLoop_select :: "MemoryStore \<Rightarrow> select_case list \<Rightarrow> error + MemoryStore" where
  "cleanupLoop_select s [] = Inr s"
| "cleanupLoop_select s (CtxDone # evs) = Inr s"
| "cleanupLoop_select s (TickerC now ks # evs) =
     (case cleanup s now ks of
        Inl e \<Rightarrow> Inl e
      | Inr s' \<Rightarrow> cleanupLoop_select s' evs)"

definition cleanupLoop :: "MemoryStore \<Rightarrow> int \<Rightarrow> select_case list \<Rightarrow> error + MemoryStore" where
  "cleanupLoop s interval evs =
     (if interval \<le> 0 then Inl PanicTickerInterval else cleanupLoop_select s evs)"

subsection \<open>A caller, and the sweep as it is described\<close>

text \<open>Calls of \<^verbatim>\<open>IncrementViews\<close> on one id, one after the other, at the given instants.\<close>

fun IncrementViews_seq ::
  "MemoryStore \<Rightarrow> string \<Rightarrow> time list \<Rightarrow> (error + 64 word) list \<times> MemoryStore" where
  "IncrementViews_seq s sid [] = ([], s)"
| "IncrementViews_seq s sid (t # ts) =
     (let (r, s') = MemoryStore_IncrementViews s t sid;
          (rs, s'') = IncrementViews_seq s' sid ts
      in (r # rs, s''))"

text \<open>
  The table the sweep is said to leave: an entry is dropped when its record is
  expired (the sweep's instant is past \<^verbatim>\<open>ExpiresAt\<close>) or exhausted
  (\<^verbatim>\<open>CurrentViews\<close> has reached \<^verbatim>\<open>MaxViews\<close>), and every other entry is kept as it
  is. This one is written from the description of the sweep, to compare
  \<^verbatim>\<open>cleanup\<close> with.
\<close>

definition swept_table ::
  "(addr \<rightharpoonup> Secret) \<Rightarrow> time \<Rightarrow> (string \<rightharpoonup> addr) \<Rightarrow> (string \<rightharpoonup> addr)" where
  "swept_table h now m =
     (\<lambda>sid. case m sid of
              None \<Rightarrow> None
            | Some a \<Rightarrow>
                (case h a of
                   None \<Rightarrow> Some a
                 | Some sec \<Rightarrow>
                     if ExpiresAt sec < now \<or> MaxViews sec <=s CurrentViews sec
                     then None else Some a))"

section \<open>The key-value engine and the serialiser\<close>

text \<open>
  The remote backend is a client of a key-value engine and of a serialiser, both
  outside the repository. The engine is modelled by what the backend relies on: a
  key holds a value and the instant at which its time-to-live runs out, a key
  whose instant has come reads as missing, and the engine shares the client's
  clock and reports a remaining time-to-live exactly (an engine that rounds it to
  whole seconds is not modelled). Values are opaque to the engine, so their type
  is a parameter. The field \<open>watches\<close> counts the optimistic transactions the
  engine has been asked to open. Transport faults are not modelled.
\<close>

record 'b engine =
  entries :: "string \<rightharpoonup> 'b \<times> time"
  watches :: nat

definition engine_GET :: "'b engine \<Rightarrow> time \<Rightarrow> string \<Rightarrow> 'b option" where
  "engine_GET e now key =
     (case entries e key of
        None \<Rightarrow> None
      | Some (v, d) \<Rightarrow> if now < d then Some v else None)"

definition engine_SET :: "'b engine \<Rightarrow> time \<Rightarrow> string \<Rightarrow> 'b \<Rightarrow> int \<Rightarrow> 'b engine" where
  "engine_SET e now key v ttl = e\<lparr>entries := (entries e)(key \<mapsto> (v, now + ttl))\<rparr>"

definition engine_DEL :: "'b engine \<Rightarrow> string \<Rightarrow> 'b engine" where
  "engine_DEL e key = e\<lparr>entries := (entries e)(key := None)\<rparr>"

text \<open>The remaining time-to-live; the client reports a missing key as \<open>-2\<close>.\<close>

definition engine_TTL :: "'b engine \<Rightarrow> time \<Rightarrow> string \<Rightarrow> int" where
  "engine_TTL e now key =
     (case entries e key of
        None \<Rightarrow> - 2
      | Some (v, d) \<Rightarrow> if now < d then d - now else - 2)"

text \<open>
  What another client did to the watched key between an attempt's reads and its
  commit: nothing, or it left the key with the given entry (\<open>None\<close>: deleted).
\<close>

type_synonym 'b touch = "('b \<times> time) option option"

definition apply_touch :: "'b engine \<Rightarrow> string \<Rightarrow> 'b touch \<Rightarrow> 'b engine" where
  "apply_touch e key t =
     (case t of None \<Rightarrow> e | Some v \<Rightarrow> e\<lparr>entries := (entries e)(key := v)\<rparr>)"

text \<open>
  \<^verbatim>\<open>encode\<close> and \<^verbatim>\<open>decode\<close> wrap the serialiser, whose format is not part of the
  repository: the pair is a parameter of every operation of the remote backend.
\<close>

record 'b codec =
  encode :: "Secret \<Rightarrow> error + 'b"
  decode :: "'b \<Rightarrow> error + Secret"

text \<open>\<^verbatim>\<open>time.Until\<close>: a duration is a signed 64-bit count, and the difference is clipped to it.\<close>

definition Until :: "time \<Rightarrow> time \<Rightarrow> int" where
  "Until now t = max (- (2 ^ 63)) (min (2 ^ 63 - 1) (t - now))"

section \<open>The remote backend\<close>

record 'b RedisStore =
  client :: "'b engine"

definition secretKey :: "string \<Rightarrow> string" where
  "secretKey sid = ''secret:'' @ sid"

definition RedisStore_Save ::
  "'b codec \<Rightarrow> 'b RedisStore \<Rightarrow> time \<Rightarrow> Secret \<Rightarrow> (error + unit) \<times> 'b RedisStore" where
  "RedisStore_Save c r now secret =
     (case encode c secret of
        Inl err \<Rightarrow> (Inl err, r)
      | Inr data \<Rightarrow>
          let ttl = Until now (ExpiresAt secret)
          in if ttl \<le> 0 then (Inl ErrExpired, r)
             else (Inr (), r\<lparr>client := engine_SET (client r) now (secretKey (ID secret)) data ttl\<rparr>))"

definition RedisStore_Delete :: "'b RedisStore \<Rightarrow> string \<Rightarrow> (error + unit) \<times> 'b RedisStore" where
  "RedisStore_Delete r sid = (Inr (), r\<lparr>client := engine_DEL (client r) (secretKey sid)\<rparr>)"

definition RedisStore_Get ::
  "'b codec \<Rightarrow> 'b RedisStore \<Rightarrow> time \<Rightarrow> string \<Rightarrow> (error + Secret) \<times> 'b RedisStore" where
  "RedisStore_Get c r now sid =
     (case engine_GET (client r) now (secretKey sid) of
        None \<Rightarrow> (Inl ErrNotFound, r)
      | Some data \<Rightarrow>
          (case decode c data of
             Inl err \<Rightarrow> (Inl err, r)
           | Inr secret \<Rightarrow>
               if MaxViews secret <=s CurrentViews secret
               then (Inl ErrMaxViews, snd (RedisStore_Delete r sid))
               else (Inr secret, r)))"

text \<open>
  The commands \<^verbatim>\<open>txf\<close> queues, and their execution. A pipeline with no command
  sends nothing, so nothing can reject it; otherwise the engine rejects the
  transaction when the watched key was touched since the watch began.
\<close>

datatype 'b pipe_cmd = PipeDel string | PipeSet string 'b int

fun run_cmd :: "time \<Rightarrow> 'b pipe_cmd \<Rightarrow> 'b engine \<Rightarrow> 'b engine" where
  "run_cmd now (PipeDel key) e = engine_DEL e key"
| "run_cmd now (PipeSet key v ttl) e = engine_SET e now key v ttl"

definition TxPipelined ::
  "'b engine \<Rightarrow> time \<Rightarrow> string \<Rightarrow> 'b touch \<Rightarrow> 'b pipe_cmd list \<Rightarrow> error option \<times> 'b engine" where
  "TxPipelined e now key t cmds =
     (let e1 = apply_touch e key t
      in if cmds = [] then (None, e1)
         else if t \<noteq> None then (Some TxFailedErr, e1)
         else (None, fold (run_cmd now) cmds e1))"

text \<open>
  \<^verbatim>\<open>txf\<close>, the closure of \<^verbatim>\<open>IncrementViews\<close>. \<open>rv\<close> is the captured variable
  \<^verbatim>\<open>resultViews\<close>, assigned before the record is encoded again.
\<close>

definition txf ::
  "'b codec \<Rightarrow> 'b engine \<Rightarrow> time \<Rightarrow> string \<Rightarrow> 'b touch \<Rightarrow> 64 word
     \<Rightarrow> error option \<times> 64 word \<times> 'b engine" where
  "txf c e now key t rv =
     (case engine_GET e now key of
        None \<Rightarrow> (Some ErrNotFound, rv, e)
      | Some data \<Rightarrow>
          (case decode c data of
             Inl err \<Rightarrow> (Some err, rv, e)
           | Inr secret \<Rightarrow>
               if After now (ExpiresAt secret) then (Some ErrExpired, rv, e)
               else if MaxViews secret <=s CurrentViews secret then (Some ErrMaxViews, rv, e)
               else
                 let secret' = secret\<lparr>CurrentViews := CurrentViews secret + 1\<rparr>;
                     resultViews = CurrentViews secret'
                 in (case encode c secret' of
                       Inl err \<Rightarrow> (Some err, resultViews, e)
                     | Inr newData \<Rightarrow>
                         let ttl = engine_TTL e now key;
                             cmds = (if MaxViews secret' <=s CurrentViews secret' then [PipeDel key]
                                     else if 0 < ttl then [PipeSet key newData ttl]
                                     else []);
                             (err, e') = TxPipelined e now key t cmds
                         in (err, resultViews, e'))))"

definition Watch ::
  "'b codec \<Rightarrow> 'b engine \<Rightarrow> time \<Rightarrow> string \<Rightarrow> 'b touch \<Rightarrow> 64 word
     \<Rightarrow> error option \<times> 64 word \<times> 'b engine" where
  "Watch c e now key t rv = txf c (e\<lparr>watches := watches e + 1\<rparr>) now key t rv"

text \<open>
  The retry loop, \<^verbatim>\<open>for i := 0; i < 3; i++\<close>. \<open>env i\<close> is what other clients do to
  the key during attempt \<open>i\<close>.
\<close>

function IncrementViews_loop ::
  "'b codec \<Rightarrow> 'b RedisStore \<Rightarrow> time \<Rightarrow> string \<Rightarrow> (nat \<Rightarrow> 'b touch) \<Rightarrow> nat \<Rightarrow> 64 word
     \<Rightarrow> (error + 64 word) \<times> 'b RedisStore" where
  "IncrementViews_loop c r now sid env i rv =
     (if i < 3 then
        (case Watch c (client r) now (secretKey sid) (env i) rv of
           (None, rv', e') \<Rightarrow> (Inr rv', r\<lparr>client := e'\<rparr>)
         | (Some err, rv', e') \<Rightarrow>
             if err = TxFailedErr
             then IncrementViews_loop c (r\<lparr>client := e'\<rparr>) now sid env (i + 1) rv'
             else if err = ErrExpired \<or> err = ErrMaxViews
             then (Inl err, snd (RedisStore_Delete (r\<lparr>client := e'\<rparr>) sid))
             else (Inl err, r\<lparr>client := e'\<rparr>))
      else (Inl TxFailedErr, r))"
  by pat_completeness auto
termination
  by (relation "measure (\<lambda>(c, r, now, sid, env, i, rv). 3 - i)") auto

declare IncrementViews_loop.simps [simp del]

definition RedisStore_IncrementViews ::
  "'b codec \<Rightarrow> 'b RedisStore \<Rightarrow> time \<Rightarrow> string \<Rightarrow> (nat \<Rightarrow> 'b touch)
     \<Rightarrow> (error + 64 word) \<times> 'b RedisStore" where
  "RedisStore_IncrementViews c r now sid env = IncrementViews_loop c r now sid env 0 0"

section \<open>Sample records\<close>

text \<open>
  The two records of \<^verbatim>\<open>redis_test.go\<close>, with the instant of the test as time 0 and
  one hour as 3600, and a record that allows three views.
\<close>

definition test_secret :: Secret where
  "test_secret =
     \<lparr>ID = ''123'', EncryptedData = [116, 101, 115, 116], MaxViews = 1, CurrentViews = 0,
      ExpiresAt = 3600, CreatedAt = 0, Passphrase = ''test''\<rparr>"

definition dead_secret :: Secret where
  "dead_secret =
     \<lparr>ID = ''1234'', EncryptedData = [116, 101, 115, 116, 52], MaxViews = 1, CurrentViews = 0,
      ExpiresAt = - 3600, CreatedAt = 0, Passphrase = ''test''\<rparr>"

definition three_views :: Secret where
  "three_views =
     \<lparr>ID = ''abc'', EncryptedData = [1, 2, 3], MaxViews = 3, CurrentViews = 0,
      ExpiresAt = 3600, CreatedAt = 0, Passphrase = ''pw''\<rparr>"

text \<open>A table that holds \<open>test_secret\<close> at address 0, and an engine that holds it.\<close>

definition test_table :: MemoryStore where
  "test_table =
     \<lparr>objects = [0 \<mapsto> test_secret], secrets = Some [''123'' \<mapsto> 0],
      cleanupCancel = True, ctxDone = False\<rparr>"

text \<open>A serialiser that keeps the record as it is: the blob is the record.\<close>

definition plain_codec :: "Secret codec" where
  "plain_codec = \<lparr>encode = Inr, decode = Inr\<rparr>"

definition test_redis :: "Secret RedisStore" where
  "test_redis =
     \<lparr>client = \<lparr>entries = [''secret:123'' \<mapsto> (test_secret, 3600)], watches = 0\<rparr>\<rparr>"

text \<open>\<open>test_secret\<close> after its one view, in a table and in an engine.\<close>

definition spent_secret :: Secret where
  "spent_secret = test_secret\<lparr>CurrentViews := 1\<rparr>"

definition spent_table :: MemoryStore where
  "spent_table =
     \<lparr>objects = [0 \<mapsto> spent_secret], secrets = Some [''123'' \<mapsto> 0],
      cleanupCancel = True, ctxDone = False\<rparr>"

definition spent_redis :: "Secret RedisStore" where
  "spent_redis =
     \<lparr>client = \<lparr>entries = [''secret:123'' \<mapsto> (spent_secret, 3600)], watches = 0\<rparr>\<rparr>"

text \<open>A fresh store; the caller holds \<open>three_views\<close> at address 0.\<close>

definition three_table :: MemoryStore where
  "three_table = NewMemoryStore [0 \<mapsto> three_views]"

text \<open>A table that holds both records of the test.\<close>

definition two_table :: MemoryStore where
  "two_table =
     \<lparr>objects = [0 \<mapsto> test_secret, 1 \<mapsto> dead_secret],
      secrets = Some [''123'' \<mapsto> 0, ''1234'' \<mapsto> 1],
      cleanupCancel = True, ctxDone = False\<rparr>"

text \<open>
  Other clients that rewrite the key of \<open>test_secret\<close> during every attempt.
\<close>

definition busy_env :: "nat \<Rightarrow> Secret touch" where
  "busy_env i = Some (Some (test_secret, 3600))"

section \<open>Signed counters\<close>

text \<open>Below the budget, the increment does not wrap.\<close>

lemma sint_succ_of_sless:
  fixes x y :: "64 word"
  assumes "x <s y"
  shows "sint (x + 1) = sint x + 1"
proof -
  have lt: "sint x < sint y" using assms by (simp add: word_sless_alt)
  have ub: "sint y < 2 ^ 63" using sint_lt [of y] by simp
  have lb: "- (2 ^ 63) \<le> sint x" using sint_ge [of x] by simp
  have "sint (x + 1) = signed_take_bit 63 (sint x + 1)"
    by (simp add: sint_word_add)
  also have "\<dots> = sint x + 1"
    using lt ub lb by (intro signed_take_bit_int_eq_self) linarith+
  finally show ?thesis .
qed

lemma sless_succ_sle:
  fixes x y :: "64 word"
  assumes "x <s y"
  shows "x + 1 <=s y"
  using assms sint_succ_of_sless [OF assms] by (simp add: word_sle_eq word_sless_alt)

lemma sle_succ_iff:
  fixes x y :: "64 word"
  assumes "x <s y"
  shows "(y <=s x + 1) = (x + 1 = y)"
  using sless_succ_sle [OF assms]
  by (auto simp: word_sle_eq intro: signed_word_eqI [symmetric] dest: sym)

lemma not_sle_of_sless:
  fixes x y :: "64 word"
  shows "x <s y \<Longrightarrow> \<not> y <=s x"
  by (simp add: word_sle_eq word_sless_alt)

section \<open>The table and the engine, step by step\<close>

lemma map_index_map_delete: "map_index (map_delete s sid) sid = None"
  by (simp add: map_index_def map_delete_def split: option.splits)

lemma map_index_objects_update [simp]: "map_index (s\<lparr>objects := h\<rparr>) sid = map_index s sid"
  by (simp add: map_index_def)

lemma objects_map_delete [simp]: "objects (map_delete s sid) = objects s"
  by (simp add: map_delete_def split: option.splits)

lemma engine_GET_Some_iff:
  "(engine_GET e now key = Some v) = (\<exists>d. entries e key = Some (v, d) \<and> now < d)"
  by (auto simp: engine_GET_def split: option.splits)

lemma engine_GET_watches [simp]: "engine_GET (e\<lparr>watches := n\<rparr>) now key = engine_GET e now key"
  by (simp add: engine_GET_def)

lemma engine_TTL_watches [simp]: "engine_TTL (e\<lparr>watches := n\<rparr>) now key = engine_TTL e now key"
  by (simp add: engine_TTL_def)

section \<open>Consuming a view\<close>

lemma IncrementViews_live_result:
  assumes "map_index s sid = Some a" "objects s a = Some sec"
    and "CurrentViews sec <s MaxViews sec" "now \<le> ExpiresAt sec"
  shows "MemoryStore_IncrementViews s now sid =
           (Inr (CurrentViews sec + 1),
            let s1 = s\<lparr>objects := (objects s)(a \<mapsto> sec\<lparr>CurrentViews := CurrentViews sec + 1\<rparr>)\<rparr>
            in if CurrentViews sec + 1 = MaxViews sec then map_delete s1 sid else s1)"
  using assms
  by (simp add: MemoryStore_IncrementViews_def After_def Let_def not_sle_of_sless sle_succ_iff)





section \<open>After \<^verbatim>\<open>Close\<close>\<close>

lemma IncrementViews_absent:
  "map_index s sid = None \<Longrightarrow> MemoryStore_IncrementViews s now sid = (Inl ErrNotFound, s)"
  by (simp add: MemoryStore_IncrementViews_def)

lemma Get_absent:
  "map_index s sid = None \<Longrightarrow> MemoryStore_Get s now sid = (Inl ErrNotFound, s)"
  by (simp add: MemoryStore_Get_def)

text \<open>
  C10. \<^verbatim>\<open>Close\<close> succeeds and leaves the nil table. On it \<^verbatim>\<open>Get\<close> and
  \<^verbatim>\<open>IncrementViews\<close> return \<^verbatim>\<open>ErrNotFound\<close> and \<^verbatim>\<open>Delete\<close> returns success, all three
  without changing the store; \<^verbatim>\<open>Save\<close> does not return an error value but panics, on
  the assignment to the nil map (or before it, on \<^verbatim>\<open>secret.ID\<close>, when it is handed
  a nil pointer).
\<close>

theorem Close_leaves_nil_table:
  "fst (MemoryStore_Close s) = Inr ()
   \<and> secrets (snd (MemoryStore_Close s)) = None
   \<and> MemoryStore_Get (snd (MemoryStore_Close s)) now sid
        = (Inl ErrNotFound, snd (MemoryStore_Close s))
   \<and> MemoryStore_IncrementViews (snd (MemoryStore_Close s)) now sid
        = (Inl ErrNotFound, snd (MemoryStore_Close s))
   \<and> MemoryStore_Delete (snd (MemoryStore_Close s)) sid = (Inr (), snd (MemoryStore_Close s))
   \<and> MemoryStore_Save (snd (MemoryStore_Close s)) secret
        = (Inl (if objects s secret = None then PanicNilDeref else PanicNilMapAssign),
           snd (MemoryStore_Close s))"
proof -
  let ?s = "snd (MemoryStore_Close s)"
  have nil: "secrets ?s = None"
    by (simp add: MemoryStore_Close_def Let_def)
  have obj: "objects ?s = objects s"
    by (simp add: MemoryStore_Close_def Let_def)
  have idx: "map_index ?s sid = None"
    by (simp add: map_index_def nil)
  have del: "map_delete ?s sid = ?s"
    by (simp add: map_delete_def nil)
  have sav: "MemoryStore_Save ?s secret
        = (Inl (if objects s secret = None then PanicNilDeref else PanicNilMapAssign), ?s)"
    by (auto simp: MemoryStore_Save_def nil obj split: option.splits)
  show ?thesis
    using nil sav
    by (simp add: IncrementViews_absent [OF idx] Get_absent [OF idx] MemoryStore_Delete_def del)
       (simp add: MemoryStore_Close_def Let_def)
qed

section \<open>Reads and lazy deletion\<close>

lemma MemoryStore_Get_state: "snd (MemoryStore_Get s now sid) = s"
  by (simp add: MemoryStore_Get_def split: option.splits)

text \<open>
  C9. \<^verbatim>\<open>MemoryStore.Get\<close> leaves the store as it found it, for every id, instant and
  store, whatever it reports: the local backend deletes nothing on a read. The
  remote backend's \<^verbatim>\<open>Get\<close> that finds an exhausted record reports
  \<^verbatim>\<open>ErrMaxViews\<close> and the key, present before, is gone after.
\<close>

theorem Get_reads_locally_evicts_remotely:
  assumes "engine_GET (client r) now' (secretKey rid) = Some data"
    and "decode c data = Inr rsec" "MaxViews rsec <=s CurrentViews rsec"
  shows "snd (MemoryStore_Get s now sid) = s
       \<and> fst (RedisStore_Get c r now' rid) = Inl ErrMaxViews
       \<and> entries (client (snd (RedisStore_Get c r now' rid))) (secretKey rid) = None
       \<and> entries (client r) (secretKey rid) \<noteq> None"
proof -
  have get: "RedisStore_Get c r now' rid = (Inl ErrMaxViews, snd (RedisStore_Delete r rid))"
    using assms by (simp add: RedisStore_Get_def)
  have "entries (client r) (secretKey rid) \<noteq> None"
    using assms(1) by (auto simp: engine_GET_Some_iff)
  then show ?thesis
    by (simp add: get MemoryStore_Get_state RedisStore_Delete_def engine_DEL_def)
qed

theorem Get_reads_locally_evicts_remotely_witness:
  "engine_GET (client spent_redis) 10 (secretKey ''123'') = Some spent_secret
   \<and> decode plain_codec spent_secret = Inr spent_secret
   \<and> MaxViews spent_secret <=s CurrentViews spent_secret
   \<and> MemoryStore_Get spent_table 10 ''123'' = (Inl ErrMaxViews, spent_table)
   \<and> MemoryStore_Get spent_table 4000 ''123'' = (Inl ErrExpired, spent_table)
   \<and> map_index spent_table ''123'' = Some 0
   \<and> fst (RedisStore_Get plain_codec spent_redis 10 ''123'') = Inl ErrMaxViews
   \<and> entries (client (snd (RedisStore_Get plain_codec spent_redis 10 ''123''))) (secretKey ''123'') = None
   \<and> entries (client spent_redis) (secretKey ''123'') = Some (spent_secret, 3600)"
proof -
  have h1: "engine_GET (client spent_redis) 10 (secretKey ''123'') = Some spent_secret"
    by (simp add: engine_GET_def spent_redis_def secretKey_def)
  have h2: "decode plain_codec spent_secret = Inr spent_secret"
    by (simp add: plain_codec_def)
  have h3: "MaxViews spent_secret <=s CurrentViews spent_secret"
    by (simp add: spent_secret_def test_secret_def)
  have g1: "fst (MemoryStore_Get spent_table 10 ''123'') = Inl ErrMaxViews"
    by (simp add: MemoryStore_Get_def map_index_def spent_table_def spent_secret_def
        test_secret_def After_def)
  have g2: "fst (MemoryStore_Get spent_table 4000 ''123'') = Inl ErrExpired"
    by (simp add: MemoryStore_Get_def map_index_def spent_table_def spent_secret_def
        test_secret_def After_def)
  have g3: "map_index spent_table ''123'' = Some 0"
    by (simp add: map_index_def spent_table_def)
  have e: "entries (client spent_redis) (secretKey ''123'') = Some (spent_secret, 3600)"
    by (simp add: spent_redis_def secretKey_def)
  from Get_reads_locally_evicts_remotely [OF h1 h2 h3, of spent_table 10 "''123''"]
    Get_reads_locally_evicts_remotely [OF h1 h2 h3, of spent_table 4000 "''123''"]
  show ?thesis
    using h1 h2 h3 g1 g2 g3 e by (simp add: prod_eq_iff)
qed

section \<open>Three views in a row\<close>

lemma Save_open:
  assumes "secrets s = Some m" "objects s p = Some sec"
  shows "MemoryStore_Save s p = (Inr (), s\<lparr>secrets := Some (m(ID sec \<mapsto> p))\<rparr>)"
  using assms by (simp add: MemoryStore_Save_def)

lemma IncrementViews_step:
  assumes "map_index s sid = Some a" "objects s a = Some sec"
    and "CurrentViews sec <s MaxViews sec" "now \<le> ExpiresAt sec"
    and "CurrentViews sec + 1 \<noteq> MaxViews sec"
  shows "fst (MemoryStore_IncrementViews s now sid) = Inr (CurrentViews sec + 1)"
    and "map_index (snd (MemoryStore_IncrementViews s now sid)) sid = Some a"
    and "objects (snd (MemoryStore_IncrementViews s now sid)) a
           = Some (sec\<lparr>CurrentViews := CurrentViews sec + 1\<rparr>)"
  using assms by (simp_all add: IncrementViews_live_result Let_def)

lemma IncrementViews_final:
  assumes "map_index s sid = Some a" "objects s a = Some sec"
    and "CurrentViews sec <s MaxViews sec" "now \<le> ExpiresAt sec"
    and "CurrentViews sec + 1 = MaxViews sec"
  shows "fst (MemoryStore_IncrementViews s now sid) = Inr (MaxViews sec)"
    and "map_index (snd (MemoryStore_IncrementViews s now sid)) sid = None"
  using assms by (simp_all add: IncrementViews_live_result Let_def map_index_map_delete)

lemma IncrementViews_seq_Cons:
  "IncrementViews_seq s sid (t # ts) =
     (fst (MemoryStore_IncrementViews s t sid)
        # fst (IncrementViews_seq (snd (MemoryStore_IncrementViews s t sid)) sid ts),
      snd (IncrementViews_seq (snd (MemoryStore_IncrementViews s t sid)) sid ts))"
  by (simp add: Let_def split: prod.splits)

text \<open>
  C4, amended. A record with \<^verbatim>\<open>MaxViews = 3\<close> and no view yet is saved into an open
  store, and \<^verbatim>\<open>IncrementViews\<close> is called four times, the first three not after
  \<^verbatim>\<open>ExpiresAt\<close>: the calls return 1, 2, 3 and then \<^verbatim>\<open>ErrNotFound\<close>, since the third
  call has already deleted the record; the record is absent afterwards.
\<close>

theorem three_views_then_gone:
  assumes "secrets s = Some m" "objects s p = Some sec"
    and "MaxViews sec = 3" "CurrentViews sec = 0"
    and "t1 \<le> ExpiresAt sec" "t2 \<le> ExpiresAt sec" "t3 \<le> ExpiresAt sec"
  shows "fst (MemoryStore_Save s p) = Inr ()
       \<and> fst (IncrementViews_seq (snd (MemoryStore_Save s p)) (ID sec) [t1, t2, t3, t4])
           = [Inr 1, Inr 2, Inr 3, Inl ErrNotFound]
       \<and> map_index (snd (IncrementViews_seq (snd (MemoryStore_Save s p)) (ID sec) [t1, t2, t3, t4]))
           (ID sec) = None"
proof -
  let ?sid = "ID sec"
  let ?s0 = "snd (MemoryStore_Save s p)"
  let ?s1 = "snd (MemoryStore_IncrementViews ?s0 t1 ?sid)"
  let ?s2 = "snd (MemoryStore_IncrementViews ?s1 t2 ?sid)"
  let ?s3 = "snd (MemoryStore_IncrementViews ?s2 t3 ?sid)"
  let ?sec1 = "sec\<lparr>CurrentViews := 1\<rparr>"
  let ?sec2 = "sec\<lparr>CurrentViews := 2\<rparr>"
  have sv: "fst (MemoryStore_Save s p) = Inr ()"
    by (simp add: Save_open [OF assms(1,2)])
  have i0: "map_index ?s0 ?sid = Some p" and o0: "objects ?s0 p = Some sec"
    using assms(2) by (simp_all add: Save_open [OF assms(1,2)] map_index_def)
  have lt0: "CurrentViews sec <s MaxViews sec" and ne0: "CurrentViews sec + 1 \<noteq> MaxViews sec"
    by (simp_all add: assms(3,4) word_sless_alt)
  note st1 = IncrementViews_step [OF i0 o0 lt0 assms(5) ne0]
  have r1: "fst (MemoryStore_IncrementViews ?s0 t1 ?sid) = Inr 1"
    and i1: "map_index ?s1 ?sid = Some p" and o1: "objects ?s1 p = Some ?sec1"
    using st1 by (simp_all add: assms(4))
  have lt1: "CurrentViews ?sec1 <s MaxViews ?sec1"
    and ne1: "CurrentViews ?sec1 + 1 \<noteq> MaxViews ?sec1"
    and e1: "t2 \<le> ExpiresAt ?sec1"
    by (simp_all add: assms word_sless_alt)
  note st2 = IncrementViews_step [OF i1 o1 lt1 e1 ne1]
  have r2: "fst (MemoryStore_IncrementViews ?s1 t2 ?sid) = Inr 2"
    and i2: "map_index ?s2 ?sid = Some p" and o2: "objects ?s2 p = Some ?sec2"
    using st2 by simp_all
  have lt2: "CurrentViews ?sec2 <s MaxViews ?sec2"
    and eq2: "CurrentViews ?sec2 + 1 = MaxViews ?sec2"
    and e2: "t3 \<le> ExpiresAt ?sec2"
    by (simp_all add: assms)
  note st3 = IncrementViews_final [OF i2 o2 lt2 e2 eq2]
  have r3: "fst (MemoryStore_IncrementViews ?s2 t3 ?sid) = Inr 3"
    and i3: "map_index ?s3 ?sid = None"
    using st3 by (simp_all add: assms(3))
  have r4: "MemoryStore_IncrementViews ?s3 t4 ?sid = (Inl ErrNotFound, ?s3)"
    by (rule IncrementViews_absent [OF i3])
  show ?thesis
    by (simp only: IncrementViews_seq_Cons IncrementViews_seq.simps sv r1 r2 r3 r4 i3
        fst_conv snd_conv simp_thms)
qed

lemma three_table_run:
  "IncrementViews_seq (snd (MemoryStore_Save three_table 0)) ''abc'' [10, 20, 30, 40]
     = ([Inr 1, Inr 2, Inr 3, Inl ErrNotFound],
        \<lparr>objects = [0 \<mapsto> three_views\<lparr>CurrentViews := 3\<rparr>], secrets = Some Map.empty,
         cleanupCancel = True, ctxDone = False\<rparr>)"
  by (simp add: three_table_def NewMemoryStore_def MemoryStore_Save_def three_views_def
      MemoryStore_IncrementViews_def map_index_def map_delete_def After_def Let_def
      word_sle_eq)

theorem fourth_call_counterexample:
  "ExpiresAt three_views = 3600 \<and> MaxViews three_views = 3 \<and> CurrentViews three_views = 0
   \<and> fst (MemoryStore_Save three_table 0) = Inr ()
   \<and> fst (IncrementViews_seq (snd (MemoryStore_Save three_table 0)) ''abc'' [10, 20, 30, 40])
        = [Inr 1, Inr 2, Inr 3, Inl ErrNotFound]
   \<and> fst (IncrementViews_seq (snd (MemoryStore_Save three_table 0)) ''abc'' [10, 20, 30, 40])
        \<noteq> [Inr 1, Inr 2, Inr 3, Inl ErrMaxViews]"
  unfolding three_table_run
  by (simp add: three_table_def NewMemoryStore_def MemoryStore_Save_def three_views_def)

theorem three_views_then_gone_witness:
  "secrets three_table = Some Map.empty \<and> objects three_table 0 = Some three_views
   \<and> MaxViews three_views = 3 \<and> CurrentViews three_views = 0
   \<and> (10::int) \<le> ExpiresAt three_views \<and> (20::int) \<le> ExpiresAt three_views
   \<and> (30::int) \<le> ExpiresAt three_views
   \<and> fst (MemoryStore_Save three_table 0) = Inr ()
   \<and> fst (IncrementViews_seq (snd (MemoryStore_Save three_table 0)) ''abc'' [10, 20, 30, 9999])
        = [Inr 1, Inr 2, Inr 3, Inl ErrNotFound]
   \<and> map_index (snd (IncrementViews_seq (snd (MemoryStore_Save three_table 0)) ''abc''
        [10, 20, 30, 9999])) ''abc'' = None"
proof -
  have h1: "secrets three_table = Some Map.empty"
    by (simp add: three_table_def NewMemoryStore_def)
  have h2: "objects three_table 0 = Some three_views"
    by (simp add: three_table_def NewMemoryStore_def)
  have h3: "MaxViews three_views = 3" and h4: "CurrentViews three_views = 0"
    by (simp_all add: three_views_def)
  have h5: "(10::int) \<le> ExpiresAt three_views" and h6: "(20::int) \<le> ExpiresAt three_views"
    and h7: "(30::int) \<le> ExpiresAt three_views"
    by (simp_all add: three_views_def)
  have sid: "ID three_views = ''abc''"
    by (simp add: three_views_def)
  show ?thesis
    using three_views_then_gone [OF h1 h2 h3 h4 h5 h6 h7, of 9999] h1 h2 h3 h4 h5 h6 h7
    by (simp add: sid)
qed

section \<open>The periodic sweep\<close>

lemma cleanup_body_open:
  assumes "secrets s = Some m" "\<forall>a. m sid = Some a \<longrightarrow> objects s a \<noteq> None"
  shows "cleanup_body now sid s
           = Inr (s\<lparr>secrets := Some (m(sid := swept_table (objects s) now m sid))\<rparr>)"
proof (cases "m sid")
  case None
  then have "m(sid := None) = m" by auto
  with None assms(1) show ?thesis
    by (simp add: cleanup_body_def map_index_def swept_table_def)
next
  case (Some a)
  with assms(2) obtain sec where sec: "objects s a = Some sec" by auto
  have keep: "m(sid \<mapsto> a) = m" using Some by auto
  show ?thesis
    using Some sec assms(1) keep
    by (simp add: cleanup_body_def map_index_def swept_table_def After_def map_delete_def)
qed

lemma swept_table_upd_same:
  "swept_table h now (m(k := swept_table h now m k)) = (swept_table h now m)"
  by (rule ext) (simp add: swept_table_def split: option.splits)

lemma cleanup_range_open:
  assumes "secrets s = Some m" "\<forall>sid a. m sid = Some a \<longrightarrow> objects s a \<noteq> None"
  shows "cleanup_range now ks s
           = Inr (s\<lparr>secrets := Some (\<lambda>sid. if sid \<in> set ks
                                              then swept_table (objects s) now m sid
                                              else m sid)\<rparr>)"
  using assms
proof (induction ks arbitrary: s m)
  case Nil
  then show ?case by simp
next
  case (Cons k ks)
  let ?m1 = "m(k := swept_table (objects s) now m k)"
  let ?s1 = "s\<lparr>secrets := Some ?m1\<rparr>"
  have body: "cleanup_body now k s = Inr ?s1"
    using Cons.prems by (intro cleanup_body_open) auto
  have sec1: "secrets ?s1 = Some ?m1" by simp
  have obj1: "objects ?s1 = objects s" by simp
  have ok1: "\<forall>sid a. ?m1 sid = Some a \<longrightarrow> objects ?s1 a \<noteq> None"
  proof (intro allI impI)
    fix sid a
    assume a: "?m1 sid = Some a"
    have "m sid = Some a"
      using a by (cases "sid = k") (auto simp: swept_table_def split: option.splits if_splits)
    with Cons.prems(2) show "objects ?s1 a \<noteq> None" by simp
  qed
  have tab: "(\<lambda>sid. if sid \<in> set ks then swept_table (objects s) now ?m1 sid else ?m1 sid)
           = (\<lambda>sid. if sid \<in> set (k # ks) then swept_table (objects s) now m sid else m sid)"
  proof (rule ext)
    fix sid
    show "(if sid \<in> set ks then swept_table (objects s) now ?m1 sid else ?m1 sid)
        = (if sid \<in> set (k # ks) then swept_table (objects s) now m sid else m sid)"
      by (cases "sid = k") (simp_all add: swept_table_upd_same)
  qed
  have "cleanup_range now (k # ks) s = cleanup_range now ks ?s1"
    by (simp add: body)
  also have "\<dots> = Inr (?s1\<lparr>secrets := Some (\<lambda>sid. if sid \<in> set ks
                                  then swept_table (objects s) now ?m1 sid else ?m1 sid)\<rparr>)"
    by (rule Cons.IH [OF sec1 ok1, unfolded obj1])
  also have "\<dots> = Inr (s\<lparr>secrets := Some (\<lambda>sid. if sid \<in> set (k # ks)
                                  then swept_table (objects s) now m sid else m sid)\<rparr>)"
    by (simp only: tab) simp
  finally show ?case .
qed

lemma swept_table_outside: "m sid = None \<Longrightarrow> swept_table h now m sid = None"
  by (simp add: swept_table_def)

text \<open>
  C6. On an open table whose entries all point to records, one sweep at the instant
  \<open>now\<close>, whatever the order \<open>ks\<close> in which the range visits the keys, leaves
  exactly \<open>swept_table\<close>: the expired and the exhausted entries are gone, every
  other entry and every record is unchanged. In particular, with a positive tick
  interval, a record whose \<^verbatim>\<open>ExpiresAt\<close> lies one interval before the tick is
  absent after the first tick of \<^verbatim>\<open>cleanupLoop\<close>.
\<close>

theorem cleanup_removes_dead_keeps_live:
  assumes "secrets s = Some m" "set ks = dom m"
    and "\<forall>sid a. m sid = Some a \<longrightarrow> objects s a \<noteq> None"
  shows "cleanup s now ks = Inr (s\<lparr>secrets := Some (swept_table (objects s) now m)\<rparr>)
       \<and> (\<forall>interval sid a sec.
             0 < interval \<and> m sid = Some a \<and> objects s a = Some sec
               \<and> ExpiresAt sec = now - interval
             \<longrightarrow> (\<exists>s'. cleanupLoop s interval [TickerC now ks] = Inr s'
                        \<and> map_index s' sid = None))"
proof -
  have tab: "(\<lambda>sid. if sid \<in> set ks then swept_table (objects s) now m sid else m sid)
           = swept_table (objects s) now m"
    using assms(2) by (auto simp: swept_table_outside fun_eq_iff domIff)
  have cl: "cleanup s now ks = Inr (s\<lparr>secrets := Some (swept_table (objects s) now m)\<rparr>)"
    using cleanup_range_open [OF assms(1,3), of now ks] tab by (simp add: cleanup_def)
  have "cleanupLoop s interval [TickerC now ks] = Inr (s\<lparr>secrets := Some (swept_table (objects s) now m)\<rparr>)
        \<and> map_index (s\<lparr>secrets := Some (swept_table (objects s) now m)\<rparr>) sid = None"
    if "0 < interval" "m sid = Some a" "objects s a = Some sec" "ExpiresAt sec = now - interval"
    for interval sid a sec
    using that by (simp add: cleanupLoop_def cl map_index_def swept_table_def)
  then show ?thesis
    using cl by blast
qed

theorem cleanup_removes_dead_keeps_live_witness:
  "secrets two_table = Some [''123'' \<mapsto> 0, ''1234'' \<mapsto> 1]
   \<and> set [''123'', ''1234''] = dom [''123'' \<mapsto> 0::nat, ''1234'' \<mapsto> 1]
   \<and> ExpiresAt dead_secret = 0 - 3600
   \<and> ExpiresAt test_secret = 3600
   \<and> (\<exists>s'. cleanup two_table 0 [''123'', ''1234''] = Inr s'
            \<and> objects s' = objects two_table
            \<and> map_index s' ''123'' = Some 0
            \<and> map_index s' ''1234'' = None)
   \<and> (\<exists>s'. cleanupLoop two_table 3600 [TickerC 0 [''123'', ''1234'']] = Inr s'
            \<and> map_index s' ''1234'' = None)"
proof -
  let ?m = "[''123'' \<mapsto> 0::nat, ''1234'' \<mapsto> 1]"
  have h1: "secrets two_table = Some ?m"
    by (simp add: two_table_def)
  have h2: "set [''123'', ''1234''] = dom ?m"
    by auto
  have h3: "\<forall>sid a. ?m sid = Some a \<longrightarrow> objects two_table a \<noteq> None"
    by (auto simp: two_table_def split: if_splits)
  have d: "ExpiresAt dead_secret = 0 - 3600" and t: "ExpiresAt test_secret = 3600"
    by (simp_all add: dead_secret_def test_secret_def)
  have live: "swept_table (objects two_table) 0 ?m ''123'' = Some 0"
    by (simp add: swept_table_def two_table_def test_secret_def word_sle_eq)
  have dead: "swept_table (objects two_table) 0 ?m ''1234'' = None"
    by (simp add: swept_table_def two_table_def dead_secret_def)
  note th = cleanup_removes_dead_keeps_live [OF h1 h2 h3, of 0]
  have c: "cleanup two_table 0 [''123'', ''1234'']
         = Inr (two_table\<lparr>secrets := Some (swept_table (objects two_table) 0 ?m)\<rparr>)"
    using th by blast
  have "0 < (3600::int) \<and> ?m ''1234'' = Some 1 \<and> objects two_table 1 = Some dead_secret
        \<and> ExpiresAt dead_secret = 0 - 3600"
    by (simp add: two_table_def d)
  with th have l: "\<exists>s'. cleanupLoop two_table 3600 [TickerC 0 [''123'', ''1234'']] = Inr s'
            \<and> map_index s' ''1234'' = None"
    by blast
  have "\<exists>s'. cleanup two_table 0 [''123'', ''1234''] = Inr s'
            \<and> objects s' = objects two_table
            \<and> map_index s' ''123'' = Some 0
            \<and> map_index s' ''1234'' = None"
    using live dead by (simp add: c map_index_def)
  with l h1 h2 d t show ?thesis
    by blast
qed

section \<open>Saving and reading back\<close>

lemma Until_fits:
  assumes "now < t" "t - now < 2 ^ 63"
  shows "Until now t = t - now"
  using assms by (simp add: Until_def)

lemma Get_stored:
  assumes "map_index s sid = Some a" "objects s a = Some sec"
  shows "MemoryStore_Get s now sid =
           (if ExpiresAt sec < now then Inl ErrExpired
            else if MaxViews sec <=s CurrentViews sec then Inl ErrMaxViews
            else Inr a, s)"
  using assms by (simp add: MemoryStore_Get_def After_def)

lemma RedisStore_Save_live:
  assumes "encode c sec = Inr data" "now < ExpiresAt sec" "ExpiresAt sec - now < 2 ^ 63"
  shows "RedisStore_Save c r now sec =
           (Inr (), r\<lparr>client := (client r)\<lparr>entries :=
               (entries (client r))(secretKey (ID sec) \<mapsto> (data, ExpiresAt sec))\<rparr>\<rparr>)"
  using assms by (simp add: RedisStore_Save_def Until_fits engine_SET_def Let_def)

lemma RedisStore_Get_present:
  assumes "engine_GET (client r) now (secretKey sid) = Some data" "decode c data = Inr sec"
  shows "RedisStore_Get c r now sid =
           (if MaxViews sec <=s CurrentViews sec
            then (Inl ErrMaxViews, snd (RedisStore_Delete r sid))
            else (Inr sec, r))"
  using assms by (simp add: RedisStore_Get_def)

lemma RedisStore_Get_absent:
  "engine_GET (client r) now (secretKey sid) = None \<Longrightarrow>
     RedisStore_Get c r now sid = (Inl ErrNotFound, r)"
  by (simp add: RedisStore_Get_def)

text \<open>
  C7. A record with views left is saved, and read back under its id before its
  deadline, with nothing in between. On the local backend (open store, the record
  at address \<open>p\<close>) \<^verbatim>\<open>Get\<close> returns \<open>p\<close>, which still holds the record as it was
  saved. On the remote backend, where the serialiser gives the record back
  (\<open>decode\<close> of \<open>encode\<close>) and the lifetime fits a duration, \<^verbatim>\<open>Get\<close> returns the
  record itself, so all its fields agree with the saved ones.
\<close>

theorem Save_then_Get_round_trip:
  assumes "secrets s = Some m" "objects s p = Some sec"
    and "CurrentViews sec <s MaxViews sec" "t < ExpiresAt sec"
    and "encode c rsec = Inr data" "decode c data = Inr rsec"
    and "CurrentViews rsec <s MaxViews rsec"
    and "now < ExpiresAt rsec" "now' < ExpiresAt rsec" "ExpiresAt rsec - now < 2 ^ 63"
  shows "fst (MemoryStore_Save s p) = Inr ()
       \<and> fst (MemoryStore_Get (snd (MemoryStore_Save s p)) t (ID sec)) = Inr p
       \<and> objects (snd (MemoryStore_Get (snd (MemoryStore_Save s p)) t (ID sec))) p = Some sec
       \<and> fst (RedisStore_Save c r now rsec) = Inr ()
       \<and> fst (RedisStore_Get c (snd (RedisStore_Save c r now rsec)) now' (ID rsec)) = Inr rsec"
proof -
  let ?s0 = "snd (MemoryStore_Save s p)"
  have sv: "MemoryStore_Save s p = (Inr (), s\<lparr>secrets := Some (m(ID sec \<mapsto> p))\<rparr>)"
    by (rule Save_open [OF assms(1,2)])
  have i0: "map_index ?s0 (ID sec) = Some p" and o0: "objects ?s0 p = Some sec"
    using assms(2) by (simp_all add: sv map_index_def)
  have g: "MemoryStore_Get ?s0 t (ID sec) = (Inr p, ?s0)"
    using assms(3,4) by (simp add: Get_stored [OF i0 o0] not_sle_of_sless)
  let ?r0 = "snd (RedisStore_Save c r now rsec)"
  note rs = RedisStore_Save_live [OF assms(5,8,10), of r]
  have present: "engine_GET (client ?r0) now' (secretKey (ID rsec)) = Some data"
    using assms(9) by (simp add: rs engine_GET_def)
  have rg: "RedisStore_Get c ?r0 now' (ID rsec) = (Inr rsec, ?r0)"
    using assms(7) by (simp add: RedisStore_Get_present [OF present assms(6)] not_sle_of_sless)
  show ?thesis
    by (simp add: g rg o0) (simp add: sv rs)
qed

theorem Save_then_Get_round_trip_witness:
  "secrets (NewMemoryStore [0 \<mapsto> test_secret]) = Some Map.empty
   \<and> objects (NewMemoryStore [0 \<mapsto> test_secret]) 0 = Some test_secret
   \<and> CurrentViews test_secret <s MaxViews test_secret
   \<and> (2::int) < ExpiresAt test_secret
   \<and> encode plain_codec test_secret = Inr test_secret
   \<and> decode plain_codec test_secret = Inr test_secret
   \<and> (0::int) < ExpiresAt test_secret
   \<and> ExpiresAt test_secret - 0 < 2 ^ 63
   \<and> fst (MemoryStore_Save (NewMemoryStore [0 \<mapsto> test_secret]) 0) = Inr ()
   \<and> fst (MemoryStore_Get (snd (MemoryStore_Save (NewMemoryStore [0 \<mapsto> test_secret]) 0)) 2 ''123'')
        = Inr 0
   \<and> fst (RedisStore_Save plain_codec \<lparr>client = \<lparr>entries = Map.empty, watches = 0\<rparr>\<rparr> 0 test_secret)
        = Inr ()
   \<and> fst (RedisStore_Get plain_codec
          (snd (RedisStore_Save plain_codec \<lparr>client = \<lparr>entries = Map.empty, watches = 0\<rparr>\<rparr> 0
             test_secret)) 2 ''123'')
        = Inr test_secret"
proof -
  have h1: "secrets (NewMemoryStore [0 \<mapsto> test_secret]) = Some Map.empty"
    and h2: "objects (NewMemoryStore [0 \<mapsto> test_secret]) 0 = Some test_secret"
    by (simp_all add: NewMemoryStore_def)
  have h3: "CurrentViews test_secret <s MaxViews test_secret"
    by (simp add: test_secret_def word_sless_alt)
  have h4: "(2::int) < ExpiresAt test_secret" and h8: "(0::int) < ExpiresAt test_secret"
    and h10: "ExpiresAt test_secret - 0 < 2 ^ 63"
    by (simp_all add: test_secret_def)
  have h5: "encode plain_codec test_secret = Inr test_secret"
    and h6: "decode plain_codec test_secret = Inr test_secret"
    by (simp_all add: plain_codec_def)
  have sid: "ID test_secret = ''123''"
    by (simp add: test_secret_def)
  show ?thesis
    using Save_then_Get_round_trip [OF h1 h2 h3 h4 h5 h6 h3 h8 h4 h10,
        of "\<lparr>client = \<lparr>entries = Map.empty, watches = 0\<rparr>\<rparr>"]
      h1 h2 h3 h4 h5 h6 h8 h10
    by (simp add: sid)
qed

section \<open>The outcomes of a read\<close>

text \<open>
  C3, amended. \<^verbatim>\<open>Get\<close> returns \<^verbatim>\<open>ErrNotFound\<close> when nothing is stored under the id.
  On the local backend a stored record gives \<^verbatim>\<open>ErrExpired\<close> when the instant of the
  call is strictly after \<^verbatim>\<open>ExpiresAt\<close>, else \<^verbatim>\<open>ErrMaxViews\<close> when
  \<^verbatim>\<open>CurrentViews\<close> has reached \<^verbatim>\<open>MaxViews\<close>, else the record. The remote backend
  has no expired outcome: a key whose time-to-live has run out reads as
  \<^verbatim>\<open>ErrNotFound\<close>, and a key that is present gives \<^verbatim>\<open>ErrMaxViews\<close> when exhausted
  and else the decoded record.
\<close>

theorem Get_outcomes:
  "(map_index s sid = None \<longrightarrow> fst (MemoryStore_Get s now sid) = Inl ErrNotFound)
   \<and> (map_index s sid = Some a \<and> objects s a = Some sec \<longrightarrow>
        fst (MemoryStore_Get s now sid)
          = (if ExpiresAt sec < now then Inl ErrExpired
             else if MaxViews sec <=s CurrentViews sec then Inl ErrMaxViews
             else Inr a))
   \<and> (entries (client r) (secretKey rid) = None \<longrightarrow>
        fst (RedisStore_Get c r now' rid) = Inl ErrNotFound)
   \<and> (entries (client r) (secretKey rid) = Some (data, d) \<and> d \<le> now' \<longrightarrow>
        fst (RedisStore_Get c r now' rid) = Inl ErrNotFound)
   \<and> (entries (client r) (secretKey rid) = Some (data, d) \<and> now' < d
          \<and> decode c data = Inr rsec \<longrightarrow>
        fst (RedisStore_Get c r now' rid)
          = (if MaxViews rsec <=s CurrentViews rsec then Inl ErrMaxViews else Inr rsec))"
proof -
  have a: "map_index s sid = None \<longrightarrow> fst (MemoryStore_Get s now sid) = Inl ErrNotFound"
    by (simp add: Get_absent)
  have b: "map_index s sid = Some a \<and> objects s a = Some sec \<longrightarrow>
        fst (MemoryStore_Get s now sid)
          = (if ExpiresAt sec < now then Inl ErrExpired
             else if MaxViews sec <=s CurrentViews sec then Inl ErrMaxViews
             else Inr a)"
    by (simp add: Get_stored)
  have c: "entries (client r) (secretKey rid) = None \<longrightarrow>
        fst (RedisStore_Get c r now' rid) = Inl ErrNotFound"
    by (simp add: RedisStore_Get_absent engine_GET_def)
  have d: "entries (client r) (secretKey rid) = Some (data, d) \<and> d \<le> now' \<longrightarrow>
        fst (RedisStore_Get c r now' rid) = Inl ErrNotFound"
    by (simp add: RedisStore_Get_absent engine_GET_def)
  have e: "entries (client r) (secretKey rid) = Some (data, d) \<and> now' < d
          \<and> decode c data = Inr rsec \<longrightarrow>
        fst (RedisStore_Get c r now' rid)
          = (if MaxViews rsec <=s CurrentViews rsec then Inl ErrMaxViews else Inr rsec)"
  proof (intro impI, elim conjE)
    assume e1: "entries (client r) (secretKey rid) = Some (data, d)" and e2: "now' < d"
      and e3: "decode c data = Inr rsec"
    have "engine_GET (client r) now' (secretKey rid) = Some data"
      using e1 e2 by (simp add: engine_GET_def)
    from RedisStore_Get_present [OF this e3] show "fst (RedisStore_Get c r now' rid)
          = (if MaxViews rsec <=s CurrentViews rsec then Inl ErrMaxViews else Inr rsec)"
      by simp
  qed
  from a b c d e show ?thesis by blast
qed

text \<open>
  At the very instant \<^verbatim>\<open>ExpiresAt\<close> the local backend still hands the record out.
\<close>

theorem Get_at_deadline_counterexample:
  "map_index test_table ''123'' = Some 0
   \<and> objects test_table 0 = Some test_secret
   \<and> ExpiresAt test_secret \<le> 3600
   \<and> fst (MemoryStore_Get test_table 3600 ''123'') = Inr 0
   \<and> fst (MemoryStore_Get test_table 3600 ''123'') \<noteq> Inl ErrExpired"
  by (simp add: MemoryStore_Get_def map_index_def test_table_def test_secret_def After_def
      word_sle_eq)

theorem Get_outcomes_witness:
  "fst (MemoryStore_Get test_table 10 ''nope'') = Inl ErrNotFound
   \<and> fst (MemoryStore_Get test_table 10 ''123'') = Inr 0
   \<and> fst (MemoryStore_Get test_table 3601 ''123'') = Inl ErrExpired
   \<and> fst (MemoryStore_Get spent_table 10 ''123'') = Inl ErrMaxViews
   \<and> fst (RedisStore_Get plain_codec test_redis 10 ''nope'') = Inl ErrNotFound
   \<and> fst (RedisStore_Get plain_codec test_redis 3600 ''123'') = Inl ErrNotFound
   \<and> fst (RedisStore_Get plain_codec test_redis 10 ''123'') = Inr test_secret
   \<and> fst (RedisStore_Get plain_codec spent_redis 10 ''123'') = Inl ErrMaxViews"
proof -
  have m0: "map_index test_table ''nope'' = None"
    and m1: "map_index test_table ''123'' = Some 0 \<and> objects test_table 0 = Some test_secret"
    and m2: "map_index spent_table ''123'' = Some 0 \<and> objects spent_table 0 = Some spent_secret"
    by (simp_all add: map_index_def test_table_def spent_table_def)
  have r0: "entries (client test_redis) (secretKey ''nope'') = None"
    and r1: "entries (client test_redis) (secretKey ''123'') = Some (test_secret, 3600)
             \<and> (3600::int) \<le> 3600"
    and r2: "entries (client test_redis) (secretKey ''123'') = Some (test_secret, 3600)
             \<and> (10::int) < 3600 \<and> decode plain_codec test_secret = Inr test_secret"
    and r3: "entries (client spent_redis) (secretKey ''123'') = Some (spent_secret, 3600)
             \<and> (10::int) < 3600 \<and> decode plain_codec spent_secret = Inr spent_secret"
    by (simp_all add: test_redis_def spent_redis_def secretKey_def plain_codec_def)
  have v: "ExpiresAt test_secret = 3600" "ExpiresAt spent_secret = 3600"
    "\<not> MaxViews test_secret <=s CurrentViews test_secret"
    "MaxViews spent_secret <=s CurrentViews spent_secret"
    by (simp_all add: test_secret_def spent_secret_def word_sle_eq)
  note i1 = Get_outcomes [of test_table "''nope''" 10 0 test_secret
      test_redis "''nope''" plain_codec 10 test_secret 3600 test_secret]
  note i2 = Get_outcomes [of test_table "''123''" 10 0 test_secret
      test_redis "''123''" plain_codec 10 test_secret 3600 test_secret]
  note i3 = Get_outcomes [of test_table "''123''" 3601 0 test_secret
      test_redis "''123''" plain_codec 3600 test_secret 3600 test_secret]
  note i4 = Get_outcomes [of spent_table "''123''" 10 0 spent_secret
      spent_redis "''123''" plain_codec 10 spent_secret 3600 spent_secret]
  have a: "fst (MemoryStore_Get test_table 10 ''nope'') = Inl ErrNotFound"
    and e: "fst (RedisStore_Get plain_codec test_redis 10 ''nope'') = Inl ErrNotFound"
    using i1 m0 r0 by simp_all
  have b: "fst (MemoryStore_Get test_table 10 ''123'') = Inr 0"
    and g: "fst (RedisStore_Get plain_codec test_redis 10 ''123'') = Inr test_secret"
    using i2 m1 r2 v by simp_all
  have c: "fst (MemoryStore_Get test_table 3601 ''123'') = Inl ErrExpired"
    and f: "fst (RedisStore_Get plain_codec test_redis 3600 ''123'') = Inl ErrNotFound"
    using i3 m1 r1 v by simp_all
  have d: "fst (MemoryStore_Get spent_table 10 ''123'') = Inl ErrMaxViews"
    and h: "fst (RedisStore_Get plain_codec spent_redis 10 ''123'') = Inl ErrMaxViews"
    using i4 m2 r3 v by simp_all
  from a b c d e f g h show ?thesis by blast
qed

section \<open>What \<^verbatim>\<open>Get\<close> hands out\<close>

lemma Get_Inr_stored:
  assumes "fst (MemoryStore_Get s now sid) = Inr p"
  shows "map_index s sid = Some p
       \<and> (\<exists>sec. objects s p = Some sec \<and> now \<le> ExpiresAt sec
                \<and> CurrentViews sec <s MaxViews sec)"
  using assms
  by (auto simp: MemoryStore_Get_def After_def word_sle_eq word_sless_alt
      split: option.splits if_splits)

lemma IncrementViews_expired:
  assumes "map_index s sid = Some a" "objects s a = Some sec" "ExpiresAt sec < now"
  shows "MemoryStore_IncrementViews s now sid = (Inl ErrExpired, map_delete s sid)"
  using assms by (simp add: MemoryStore_IncrementViews_def After_def)

text \<open>
  C5, amended. What \<^verbatim>\<open>MemoryStore.Get\<close> returns is the pointer the table holds
  under the id, not a copy of the record. A later \<^verbatim>\<open>IncrementViews\<close> on the same
  id that succeeds shows through it: the record at that pointer has its
  \<^verbatim>\<open>CurrentViews\<close> raised by one and its other fields as before. One that fails
  leaves the record as it was.
\<close>

theorem Get_returns_the_stored_pointer:
  assumes "fst (MemoryStore_Get s now sid) = Inr p"
  shows "map_index s sid = Some p
       \<and> (\<exists>sec. objects s p = Some sec
              \<and> (case fst (MemoryStore_IncrementViews s now' sid) of
                    Inr n \<Rightarrow>
                      n = CurrentViews sec + 1
                      \<and> objects (snd (MemoryStore_IncrementViews s now' sid)) p
                          = Some (sec\<lparr>CurrentViews := CurrentViews sec + 1\<rparr>)
                  | Inl e \<Rightarrow>
                      objects (snd (MemoryStore_IncrementViews s now' sid)) p = Some sec))"
proof -
  from Get_Inr_stored [OF assms] obtain sec where
    idx: "map_index s sid = Some p" and obj: "objects s p = Some sec"
    and lt: "CurrentViews sec <s MaxViews sec"
    by blast
  have "case fst (MemoryStore_IncrementViews s now' sid) of
          Inr n \<Rightarrow>
            n = CurrentViews sec + 1
            \<and> objects (snd (MemoryStore_IncrementViews s now' sid)) p
                = Some (sec\<lparr>CurrentViews := CurrentViews sec + 1\<rparr>)
        | Inl e \<Rightarrow> objects (snd (MemoryStore_IncrementViews s now' sid)) p = Some sec"
  proof (cases "ExpiresAt sec < now'")
    case True
    then show ?thesis
      by (simp add: IncrementViews_expired [OF idx obj] obj)
  next
    case False
    then have "now' \<le> ExpiresAt sec" by simp
    from IncrementViews_live_result [OF idx obj lt this] show ?thesis
      by (simp add: Let_def)
  qed
  with idx obj show ?thesis by blast
qed

text \<open>
  The record behind the pointer that \<^verbatim>\<open>Get\<close> returned changes under a later
  \<^verbatim>\<open>IncrementViews\<close>.
\<close>

theorem Get_alias_counterexample:
  "fst (MemoryStore_Get (snd (MemoryStore_Save three_table 0)) 10 ''abc'') = Inr 0
   \<and> objects (snd (MemoryStore_Save three_table 0)) 0 = Some three_views
   \<and> CurrentViews three_views = 0
   \<and> fst (MemoryStore_IncrementViews (snd (MemoryStore_Save three_table 0)) 20 ''abc'') = Inr 1
   \<and> objects (snd (MemoryStore_IncrementViews (snd (MemoryStore_Save three_table 0)) 20 ''abc'')) 0
        = Some (three_views\<lparr>CurrentViews := 1\<rparr>)
   \<and> objects (snd (MemoryStore_IncrementViews (snd (MemoryStore_Save three_table 0)) 20 ''abc'')) 0
        \<noteq> objects (snd (MemoryStore_Save three_table 0)) 0"
  by (simp add: three_table_def NewMemoryStore_def MemoryStore_Save_def three_views_def
      MemoryStore_Get_def MemoryStore_IncrementViews_def map_index_def map_delete_def
      After_def Let_def word_sle_eq)

theorem Get_returns_the_stored_pointer_witness:
  "fst (MemoryStore_Get test_table 10 ''123'') = Inr 0
   \<and> map_index test_table ''123'' = Some 0
   \<and> objects test_table 0 = Some test_secret
   \<and> fst (MemoryStore_IncrementViews test_table 20 ''123'') = Inr 1
   \<and> objects (snd (MemoryStore_IncrementViews test_table 20 ''123'')) 0
        = Some (test_secret\<lparr>CurrentViews := 1\<rparr>)
   \<and> fst (MemoryStore_IncrementViews test_table 3601 ''123'') = Inl ErrExpired
   \<and> objects (snd (MemoryStore_IncrementViews test_table 3601 ''123'')) 0 = Some test_secret"
proof -
  have h: "fst (MemoryStore_Get test_table 10 ''123'') = Inr 0"
    by (simp add: MemoryStore_Get_def map_index_def test_table_def test_secret_def After_def
        word_sle_eq)
  have o: "objects test_table 0 = Some test_secret"
    by (simp add: test_table_def)
  have r1: "fst (MemoryStore_IncrementViews test_table 20 ''123'') = Inr 1"
    and r2: "fst (MemoryStore_IncrementViews test_table 3601 ''123'') = Inl ErrExpired"
    by (simp_all add: MemoryStore_IncrementViews_def map_index_def test_table_def
        test_secret_def After_def Let_def word_sle_eq)
  have cv: "CurrentViews test_secret + 1 = 1"
    by (simp add: test_secret_def)
  show ?thesis
    using Get_returns_the_stored_pointer [OF h, of 20]
      Get_returns_the_stored_pointer [OF h, of 3601] h o
    by (simp add: r1 r2 cv)
qed

section \<open>Saving a record that has already expired\<close>

lemma RedisStore_Save_expired:
  assumes "encode c sec = Inr data" "ExpiresAt sec \<le> now"
  shows "RedisStore_Save c r now sec = (Inl ErrExpired, r)"
  using assms by (simp add: RedisStore_Save_def Until_def Let_def)

lemma IncrementViews_Inr_not_expired:
  assumes "fst (MemoryStore_IncrementViews s now sid) = Inr n"
    and "map_index s sid = Some a" "objects s a = Some sec"
  shows "now \<le> ExpiresAt sec"
  using assms
  by (auto simp: MemoryStore_IncrementViews_def After_def Let_def split: if_splits)

text \<open>
  C2, amended. A secret whose \<^verbatim>\<open>ExpiresAt\<close> is already in the past: on the remote
  backend \<^verbatim>\<open>Save\<close> fails with \<^verbatim>\<open>ErrExpired\<close> and leaves the engine as it was. On
  the local backend, once such a record is in the table, \<^verbatim>\<open>Get\<close> and
  \<^verbatim>\<open>IncrementViews\<close> at any later instant \<open>t\<close> report \<^verbatim>\<open>ErrExpired\<close>, and the
  latter removes it. In any store, a record that \<^verbatim>\<open>Get\<close> returns or that
  \<^verbatim>\<open>IncrementViews\<close> counts a view on has not passed its \<^verbatim>\<open>ExpiresAt\<close>, so the
  secret is never readable.
\<close>

theorem expired_secret_never_readable:
  assumes "secrets s = Some m" "objects s p = Some sec" "ExpiresAt sec < t"
    and "encode c rsec = Inr data" "ExpiresAt rsec < now"
  shows "RedisStore_Save c r now rsec = (Inl ErrExpired, r)
       \<and> fst (MemoryStore_Get (snd (MemoryStore_Save s p)) t (ID sec)) = Inl ErrExpired
       \<and> fst (MemoryStore_IncrementViews (snd (MemoryStore_Save s p)) t (ID sec)) = Inl ErrExpired
       \<and> map_index (snd (MemoryStore_IncrementViews (snd (MemoryStore_Save s p)) t (ID sec)))
            (ID sec) = None
       \<and> (\<forall>s' t' sid' a sec'.
             fst (MemoryStore_Get s' t' sid') = Inr a \<and> objects s' a = Some sec'
               \<longrightarrow> t' \<le> ExpiresAt sec')
       \<and> (\<forall>s' t' sid' n a sec'.
             fst (MemoryStore_IncrementViews s' t' sid') = Inr n \<and> map_index s' sid' = Some a
               \<and> objects s' a = Some sec'
               \<longrightarrow> t' \<le> ExpiresAt sec')"
proof -
  let ?s0 = "snd (MemoryStore_Save s p)"
  have sv: "MemoryStore_Save s p = (Inr (), s\<lparr>secrets := Some (m(ID sec \<mapsto> p))\<rparr>)"
    by (rule Save_open [OF assms(1,2)])
  have i0: "map_index ?s0 (ID sec) = Some p" and o0: "objects ?s0 p = Some sec"
    using assms(2) by (simp_all add: sv map_index_def)
  have g: "fst (MemoryStore_Get ?s0 t (ID sec)) = Inl ErrExpired"
    using assms(3) by (simp add: Get_stored [OF i0 o0])
  have iv: "MemoryStore_IncrementViews ?s0 t (ID sec) = (Inl ErrExpired, map_delete ?s0 (ID sec))"
    by (rule IncrementViews_expired [OF i0 o0 assms(3)])
  have rs: "RedisStore_Save c r now rsec = (Inl ErrExpired, r)"
    using assms(4,5) by (intro RedisStore_Save_expired) simp_all
  have any_get: "t' \<le> ExpiresAt sec'"
    if "fst (MemoryStore_Get s' t' sid') = Inr a \<and> objects s' a = Some sec'"
    for s' t' sid' a sec'
    using Get_Inr_stored [of s' t' sid' a] that by auto
  have any_inc: "t' \<le> ExpiresAt sec'"
    if "fst (MemoryStore_IncrementViews s' t' sid') = Inr n \<and> map_index s' sid' = Some a
               \<and> objects s' a = Some sec'"
    for s' t' sid' n a sec'
    using IncrementViews_Inr_not_expired [of s' t' sid' n a sec'] that by blast
  show ?thesis
    using rs g any_get any_inc by (simp add: iv map_index_map_delete)
qed

text \<open>
  The local \<^verbatim>\<open>Save\<close> takes the second record of the test, one hour past its
  deadline, returns success and leaves it in the table.
\<close>

theorem local_Save_counterexample:
  "ExpiresAt dead_secret < 0
   \<and> fst (MemoryStore_Save (NewMemoryStore [1 \<mapsto> dead_secret]) 1) = Inr ()
   \<and> fst (MemoryStore_Save (NewMemoryStore [1 \<mapsto> dead_secret]) 1) \<noteq> Inl ErrExpired
   \<and> map_index (snd (MemoryStore_Save (NewMemoryStore [1 \<mapsto> dead_secret]) 1)) ''1234'' = Some 1"
  by (simp add: NewMemoryStore_def MemoryStore_Save_def dead_secret_def map_index_def)

theorem expired_secret_never_readable_witness:
  "secrets (NewMemoryStore [1 \<mapsto> dead_secret]) = Some Map.empty
   \<and> objects (NewMemoryStore [1 \<mapsto> dead_secret]) 1 = Some dead_secret
   \<and> ExpiresAt dead_secret < 2
   \<and> encode plain_codec dead_secret = Inr dead_secret
   \<and> ExpiresAt dead_secret < 0
   \<and> RedisStore_Save plain_codec test_redis 0 dead_secret = (Inl ErrExpired, test_redis)
   \<and> fst (MemoryStore_Get (snd (MemoryStore_Save (NewMemoryStore [1 \<mapsto> dead_secret]) 1)) 2 ''1234'')
        = Inl ErrExpired
   \<and> fst (MemoryStore_IncrementViews
          (snd (MemoryStore_Save (NewMemoryStore [1 \<mapsto> dead_secret]) 1)) 2 ''1234'')
        = Inl ErrExpired"
proof -
  have h1: "secrets (NewMemoryStore [1 \<mapsto> dead_secret]) = Some Map.empty"
    and h2: "objects (NewMemoryStore [1 \<mapsto> dead_secret]) 1 = Some dead_secret"
    by (simp_all add: NewMemoryStore_def)
  have h3: "ExpiresAt dead_secret < 2" and h5: "ExpiresAt dead_secret < 0"
    by (simp_all add: dead_secret_def)
  have h4: "encode plain_codec dead_secret = Inr dead_secret"
    by (simp add: plain_codec_def)
  have sid: "ID dead_secret = ''1234''"
    by (simp add: dead_secret_def)
  show ?thesis
    using expired_secret_never_readable [OF h1 h2 h3 h4 h5, of test_redis] h1 h2 h3 h4 h5
    by (simp add: sid)
qed

section \<open>The retry loop of the remote backend\<close>

lemma watches_run_cmd [simp]: "watches (run_cmd now cmd e) = watches e"
  by (cases cmd) (simp_all add: engine_DEL_def engine_SET_def)

lemma watches_fold_run_cmd [simp]: "watches (fold (run_cmd now) cmds e) = watches e"
  by (induction cmds arbitrary: e) simp_all

lemma watches_apply_touch [simp]: "watches (apply_touch e key t) = watches e"
  by (simp add: apply_touch_def split: option.splits)

lemma watches_TxPipelined [simp]: "watches (snd (TxPipelined e now key t cmds)) = watches e"
  by (simp add: TxPipelined_def Let_def)

lemma watches_txf [simp]: "watches (snd (snd (txf c e now key t rv))) = watches e"
proof (cases "engine_GET e now key")
  case None
  then show ?thesis by (simp add: txf_def)
next
  case (Some data)
  show ?thesis
  proof (cases "decode c data")
    case (Inl err)
    with Some show ?thesis by (simp add: txf_def)
  next
    case (Inr secret)
    show ?thesis
    proof (cases "encode c (secret\<lparr>CurrentViews := CurrentViews secret + 1\<rparr>)")
      case (Inl err)
      with Some Inr show ?thesis by (simp add: txf_def Let_def)
    next
      case (Inr newData)
      with Some \<open>decode c data = Inr secret\<close> show ?thesis
        by (simp add: txf_def Let_def split_beta)
    qed
  qed
qed

lemma watches_Watch: "watches (snd (snd (Watch c e now key t rv))) = watches e + 1"
  by (simp add: Watch_def)

lemma watches_Watch_eq:
  "Watch c e now key t rv = (err, rv', e') \<Longrightarrow> watches e' = watches e + 1"
  using watches_Watch [of c e now key t rv] by simp

lemma watches_loop:
  "watches (client (snd (IncrementViews_loop c r now sid env i rv)))
     \<le> watches (client r) + (3 - i)"
proof (induction c r now sid env i rv rule: IncrementViews_loop.induct)
  case (1 c r now sid env i rv)
  show ?case
  proof (cases "i < 3")
    case False
    then show ?thesis
      by (subst IncrementViews_loop.simps) simp
  next
    case True
    obtain err rv' e' where w: "Watch c (client r) now (secretKey sid) (env i) rv = (err, rv', e')"
      by (cases "Watch c (client r) now (secretKey sid) (env i) rv") auto
    have we: "watches e' = watches (client r) + 1"
      by (rule watches_Watch_eq [OF w])
    show ?thesis
    proof (cases "err = Some TxFailedErr")
      case T: True
      have "watches (client (snd (IncrementViews_loop c (r\<lparr>client := e'\<rparr>) now sid env (i + 1) rv')))
              \<le> watches (client (r\<lparr>client := e'\<rparr>)) + (3 - (i + 1))"
        using "1.IH" [OF True w [symmetric] _ refl refl] T by simp
      then show ?thesis
        using True w T we by (subst IncrementViews_loop.simps) simp
    next
      case False
      then show ?thesis
        using True w we
        by (subst IncrementViews_loop.simps)
           (auto simp: RedisStore_Delete_def engine_DEL_def split: option.splits)
    qed
  qed
qed

text \<open>
  C8. When each of the three attempts of \<^verbatim>\<open>RedisStore.IncrementViews\<close> ends in the
  transaction failure, the call returns that failure, an error other than
  \<^verbatim>\<open>ErrNotFound\<close>, \<^verbatim>\<open>ErrExpired\<close> and \<^verbatim>\<open>ErrMaxViews\<close>, after exactly three watches;
  and no call, whatever happens, opens more than three.
\<close>

theorem IncrementViews_write_conflict:
  assumes "Watch c (client r) now (secretKey sid) (env 0) 0 = (Some TxFailedErr, rv1, e1)"
    and "Watch c e1 now (secretKey sid) (env 1) rv1 = (Some TxFailedErr, rv2, e2)"
    and "Watch c e2 now (secretKey sid) (env 2) rv2 = (Some TxFailedErr, rv3, e3)"
  shows "RedisStore_IncrementViews c r now sid env = (Inl TxFailedErr, r\<lparr>client := e3\<rparr>)
       \<and> TxFailedErr \<noteq> ErrNotFound \<and> TxFailedErr \<noteq> ErrExpired \<and> TxFailedErr \<noteq> ErrMaxViews
       \<and> watches e3 = watches (client r) + 3
       \<and> (\<forall>c' r' now' sid' env'.
             watches (client (snd (RedisStore_IncrementViews c' r' now' sid' env')))
               \<le> watches (client (r' :: 'a RedisStore)) + 3)"
proof -
  have s1: "IncrementViews_loop c r now sid env 0 0
              = IncrementViews_loop c (r\<lparr>client := e1\<rparr>) now sid env 1 rv1"
    using assms(1) by (subst IncrementViews_loop.simps) simp
  have s2: "IncrementViews_loop c (r\<lparr>client := e1\<rparr>) now sid env 1 rv1
              = IncrementViews_loop c (r\<lparr>client := e2\<rparr>) now sid env 2 rv2"
    using assms(2) by (subst IncrementViews_loop.simps) (simp add: eval_nat_numeral)
  have s3: "IncrementViews_loop c (r\<lparr>client := e2\<rparr>) now sid env 2 rv2
              = IncrementViews_loop c (r\<lparr>client := e3\<rparr>) now sid env 3 rv3"
    using assms(3) by (subst IncrementViews_loop.simps) (simp add: eval_nat_numeral)
  have s4: "IncrementViews_loop c (r\<lparr>client := e3\<rparr>) now sid env 3 rv3
              = (Inl TxFailedErr, r\<lparr>client := e3\<rparr>)"
    by (subst IncrementViews_loop.simps) simp
  have res: "RedisStore_IncrementViews c r now sid env = (Inl TxFailedErr, r\<lparr>client := e3\<rparr>)"
    by (simp only: RedisStore_IncrementViews_def s1 s2 s3 s4)
  have cnt: "watches e3 = watches (client r) + 3"
    using watches_Watch_eq [OF assms(1)] watches_Watch_eq [OF assms(2)]
      watches_Watch_eq [OF assms(3)] by simp
  have bound: "watches (client (snd (RedisStore_IncrementViews c' r' now' sid' env')))
               \<le> watches (client r') + 3"
    for c' :: "'a codec" and r' now' sid' env'
    using watches_loop [of c' r' now' sid' env' 0 0] by (simp add: RedisStore_IncrementViews_def)
  show ?thesis
    using res cnt bound by simp
qed

theorem IncrementViews_write_conflict_witness:
  "fst (RedisStore_IncrementViews plain_codec test_redis 10 ''123'' busy_env) = Inl TxFailedErr
   \<and> watches (client (snd (RedisStore_IncrementViews plain_codec test_redis 10 ''123'' busy_env))) = 3
   \<and> entries (client (snd (RedisStore_IncrementViews plain_codec test_redis 10 ''123'' busy_env)))
        ''secret:123'' = Some (test_secret, 3600)"
proof -
  let ?e = "\<lambda>n. \<lparr>entries = [''secret:123'' \<mapsto> (test_secret, 3600)], watches = n\<rparr>"
  have step: "Watch plain_codec (?e n) 10 (secretKey ''123'') (busy_env i) rv
                = (Some TxFailedErr, 1, ?e (n + 1))" for n i rv
    by (simp add: Watch_def txf_def engine_GET_def engine_TTL_def plain_codec_def secretKey_def
        test_secret_def After_def Let_def word_sle_eq TxPipelined_def apply_touch_def busy_env_def)
  have c0: "client test_redis = ?e 0"
    by (simp add: test_redis_def)
  have h1: "Watch plain_codec (client test_redis) 10 (secretKey ''123'') (busy_env 0) 0
              = (Some TxFailedErr, 1, ?e 1)"
    using step [of 0 0 0] by (simp add: c0)
  have h2: "Watch plain_codec (?e 1) 10 (secretKey ''123'') (busy_env 1) 1
              = (Some TxFailedErr, 1, ?e 2)"
    using step [of 1 1 1] by simp
  have h3: "Watch plain_codec (?e 2) 10 (secretKey ''123'') (busy_env 2) 1
              = (Some TxFailedErr, 1, ?e 3)"
    using step [of 2 2 1] by simp
  from IncrementViews_write_conflict [OF h1 h2 h3]
  have res: "RedisStore_IncrementViews plain_codec test_redis 10 ''123'' busy_env
               = (Inl TxFailedErr, test_redis\<lparr>client := ?e 3\<rparr>)"
    by (rule conjunct1)
  show ?thesis
    by (simp add: res)
qed

end
